theory Spec2Isabelle
  imports Main "HOL-Library.Word" "HOL-Library.Multiset"
begin

section \<open>The credential broker of sand.go\<close>

text \<open>
  The broker talks to four collaborators that live outside the file: the cache backend
  (\<open>cache.Cache\<close>), the client-credentials exchange (\<open>config.Token\<close>), the clock
  (\<open>time.Now\<close>, \<open>time.Sleep\<close>) and the caller's callback \<open>exec\<close>. Every call to one of
  them is recorded as an \<open>event\<close>; the list of events so far, oldest first, is threaded
  through every function. What a collaborator answers is a function of the events before
  the call and of the call's arguments, so a callback that answers differently on its
  third invocation, a cache that forgets a deleted key and a clock that advances while
  sleeping are all instances.
\<close>

subsection \<open>Data\<close>

text \<open>
  \<open>time.Duration\<close> is an \<open>int64\<close> count of nanoseconds; arithmetic on it wraps. Go's
  \<open>int\<close> is taken at 64 bits, so \<open>int(...)\<close> of an \<open>int64\<close> changes nothing. Retry counts
  are plain integers: the loops compare and increment them below \<open>numRetry\<close>, where no
  wrap-around can happen.
\<close>

type_synonym Duration = "64 word"

definition Second :: Duration where
  "Second = 1000000000"

text \<open>
  \<open>time.Time\<close>: the instant as seconds since the Unix epoch plus nanoseconds within the
  second. The zero \<open>Time\<close> is January 1 of year 1, 00:00:00 UTC, which is
  \<open>-62135596800\<close> Unix seconds; \<open>IsZero\<close> tests for exactly that instant and \<open>Unix\<close>
  drops the nanoseconds.
\<close>

record Time =
  unixSec :: "64 word"
  nsec :: nat

definition zeroTime :: Time where
  "zeroTime = \<lparr>unixSec = - 62135596800, nsec = 0\<rparr>"

definition IsZero :: "Time \<Rightarrow> bool" where
  "IsZero t \<longleftrightarrow> unixSec t = - 62135596800 \<and> nsec t = 0"

definition Unix :: "Time \<Rightarrow> 64 word" where
  "Unix t = unixSec t"

text \<open>\<open>oauth2.Token\<close>, with the two fields the broker reads.\<close>

record oauth2_Token =
  AccessToken :: string
  Expiry :: Time

text \<open>
  A Go \<open>error\<close> value. \<open>AuthenticationError\<close> is the broker's own error kind;
  \<open>ExternalError m\<close> is any other error, of message \<open>m\<close>, handed back by a collaborator.
\<close>

datatype error = AuthenticationError string | ExternalError string

text \<open>
  Modelled from the spec: the method \<open>Error()\<close> of \<open>AuthenticationError\<close> is declared
  outside sand.go; an authentication failure "carries the underlying cause message",
  so its message is the string it was built from.
\<close>

fun Error :: "error \<Rightarrow> string" where
  "Error (AuthenticationError m) = m"
| "Error (ExternalError m) = m"

text \<open>
  \<open>*http.Response\<close>: the status code, and the rest of the response as an opaque body.
  A nil pointer is \<open>None\<close>.
\<close>

record Response =
  StatusCode :: int
  Body :: string

definition StatusUnauthorized :: int where
  "StatusUnauthorized = 401"

text \<open>
  What \<open>Cache.Read\<close> hands back is an \<open>interface{}\<close>: nil (\<open>None\<close>), a string, or a
  value of some other dynamic type, on which the assertion \<open>token.(string)\<close> panics.
\<close>

datatype any = VString string | VOther

datatype event =
    CacheRead string
  | CacheWrite string string Duration
  | CacheDelete string
  | Exchange "string list"
  | Now
  | Sleep Duration
  | WarnfToken Duration string
  | WarnfRequest Duration
  | Exec string

type_synonym trace = "event list"

text \<open>A configured cache backend is given by what its \<open>Read\<close> answers.\<close>

type_synonym cache = "trace \<Rightarrow> string \<Rightarrow> any option"

text \<open>The callback: the response pointer and the error it returns for a token.\<close>

type_synonym exec = "trace \<Rightarrow> string \<Rightarrow> Response option \<times> error option"

text \<open>
  The collaborators that are not fields of the client: the exchange \<open>config.Token\<close>
  (a token pointer and an error), the clock, and what the platform makes of converting
  a \<open>float64\<close> that does not fit to \<open>int64\<close> (the language leaves it open), as a function
  of the retry index whose power of two was converted.
\<close>

record env =
  config_Token :: "trace \<Rightarrow> string list \<Rightarrow> oauth2_Token option \<times> error option"
  time_Now :: "trace \<Rightarrow> Time"
  float_overflow :: "int \<Rightarrow> 64 word"

record Client =
  ClientID :: string
  ClientSecret :: string
  TokenURL :: string
  SkipTLSVerify :: bool
  MaxRetry :: int
  Cache :: "cache option"
  CacheRoot :: string
  cacheType :: string

text \<open>A call either returns its results or panics (nil dereference, failed assertion).\<close>

datatype 'a outcome = Returns 'a | Panics

subsection \<open>Cache key\<close>

text \<open>\<open>strings.Join\<close>.\<close>

fun Join :: "string list \<Rightarrow> string \<Rightarrow> string" where
  "Join [] sep = []"
| "Join [x] sep = x"
| "Join (x # y # ys) sep = x @ sep @ Join (y # ys) sep"

definition cacheKey :: "Client \<Rightarrow> string \<Rightarrow> string list \<Rightarrow> string" where
  "cacheKey c key scopes =
     (let rv = CacheRoot c @ ''/'' @ cacheType c @ ''/'' @ key
      in if length scopes > 0 then rv @ ''/'' @ Join scopes ''_'' else rv)"

subsection \<open>Backoff\<close>

text \<open>
  \<open>time.Duration(math.Pow(2, float64(retry)))\<close> for a retry index \<open>retry \<ge> 0\<close>: the power
  is exact, and it fits \<open>int64\<close> up to \<open>2^62\<close>.
\<close>

definition pow2_sleep :: "env \<Rightarrow> int \<Rightarrow> Duration" where
  "pow2_sleep e retry = (if retry < 63 then 2 ^ nat retry else float_overflow e retry)"

subsection \<open>Token exchange with retry\<close>

text \<open>The \<open>for\<close> loop of \<open>oauthToken\<close>, entered with \<open>retry\<close> and the last \<open>(token, err)\<close>.\<close>

function oauthToken_loop ::
  "env \<Rightarrow> string list \<Rightarrow> int \<Rightarrow> int \<Rightarrow> oauth2_Token option \<times> error option \<Rightarrow> trace
     \<Rightarrow> (oauth2_Token option \<times> error option) \<times> trace" where
  "oauthToken_loop e scopes numRetry retry r h =
     (if snd r \<noteq> None \<and> retry < numRetry then
        let sleep = pow2_sleep e retry;
            h1 = h @ [WarnfToken sleep (Error (the (snd r))), Sleep (sleep * Second)]
        in oauthToken_loop e scopes numRetry (retry + 1) (config_Token e h1 scopes)
             (h1 @ [Exchange scopes])
      else (r, h))"
  by pat_completeness auto
termination
  by (relation "measure (\<lambda>(e, scopes, numRetry, retry, r, h). nat (numRetry - retry))") auto

declare oauthToken_loop.simps [simp del]

definition oauthToken ::
  "Client \<Rightarrow> env \<Rightarrow> string list \<Rightarrow> int \<Rightarrow> trace
     \<Rightarrow> (oauth2_Token option \<times> error option) \<times> trace" where
  "oauthToken c e scopes numRetry0 h =
     (let numRetry = (if numRetry0 < 0 then MaxRetry c else numRetry0);
          r = config_Token e h scopes;
          h1 = h @ [Exchange scopes];
          (r', h2) = (if snd r \<noteq> None \<and> numRetry > 0
                      then oauthToken_loop e scopes numRetry 0 r h1 else (r, h1))
      in case r' of
           (token, Some err) \<Rightarrow> ((token, Some (AuthenticationError (Error err))), h2)
         | (token, None) \<Rightarrow> ((token, None), h2))"

subsection \<open>Token\<close>

text \<open>
  Lines 131 to 148 of \<open>Token\<close>: what happens once the cache, if consulted, had nothing.
\<close>

definition Token_fetch ::
  "Client \<Rightarrow> env \<Rightarrow> string \<Rightarrow> string list \<Rightarrow> int \<Rightarrow> trace
     \<Rightarrow> (string \<times> error option) outcome \<times> trace" where
  "Token_fetch c e key scopes numRetry h =
     (case oauthToken c e scopes numRetry h of
        ((_, Some err), h1) \<Rightarrow> (Returns ([], Some err), h1)
      | ((None, None), h1) \<Rightarrow> (Panics, h1)
      | ((Some token, None), h1) \<Rightarrow>
          if AccessToken token = [] then
            (Returns ([], Some (AuthenticationError ''Invalid access token'')), h1)
          else if Cache c \<noteq> None \<and> key \<noteq> [] then
            (if \<not> IsZero (Expiry token) then
               (let expiresIn = Unix (Expiry token) - Unix (time_Now e h1);
                    h2 = h1 @ [Now]
                in if 0 \<le> sint expiresIn then
                     (Returns (AccessToken token, None),
                      h2 @ [CacheWrite (cacheKey c key scopes) (AccessToken token)
                              (expiresIn * Second)])
                   else (Returns (AccessToken token, None), h2))
             else
               (Returns (AccessToken token, None),
                h1 @ [CacheWrite (cacheKey c key scopes) (AccessToken token) (0 * Second)]))
          else (Returns (AccessToken token, None), h1))"

definition Token ::
  "Client \<Rightarrow> env \<Rightarrow> string \<Rightarrow> string list \<Rightarrow> int \<Rightarrow> trace
     \<Rightarrow> (string \<times> error option) outcome \<times> trace" where
  "Token c e key scopes numRetry h =
     (case Cache c of
        None \<Rightarrow> Token_fetch c e key scopes numRetry h
      | Some cache \<Rightarrow>
          if key \<noteq> [] then
            (let h1 = h @ [CacheRead (cacheKey c key scopes)]
             in case cache h (cacheKey c key scopes) of
                  None \<Rightarrow> Token_fetch c e key scopes numRetry h1
                | Some (VString token) \<Rightarrow> (Returns (token, None), h1)
                | Some VOther \<Rightarrow> (Panics, h1))
          else Token_fetch c e key scopes numRetry h)"

subsection \<open>Request with retry\<close>

text \<open>
  The \<open>for\<close> loop of \<open>RequestWithCustomRetry\<close>, entered with \<open>retry\<close> and the last
  response. Reading \<open>resp.StatusCode\<close> of a nil response panics.
\<close>

function RequestWithCustomRetry_loop ::
  "Client \<Rightarrow> env \<Rightarrow> string \<Rightarrow> string list \<Rightarrow> int \<Rightarrow> exec \<Rightarrow> int \<Rightarrow> Response option \<Rightarrow> trace
     \<Rightarrow> (Response option \<times> error option) outcome \<times> trace" where
  "RequestWithCustomRetry_loop c e key scopes numRetry ex retry resp h =
     (case resp of
        None \<Rightarrow> (Panics, h)
      | Some r \<Rightarrow>
          if StatusCode r = StatusUnauthorized \<and> retry < numRetry then
            (let sleep = pow2_sleep e retry;
                 h1 = h @ [WarnfRequest sleep, Sleep (sleep * Second)];
                 h2 = (if Cache c \<noteq> None then h1 @ [CacheDelete (cacheKey c key scopes)]
                       else h1)
             in case Token c e key scopes 0 h2 of
                  (Panics, h3) \<Rightarrow> (Panics, h3)
                | (Returns (token, Some err), h3) \<Rightarrow> (Returns (resp, Some err), h3)
                | (Returns (token, None), h3) \<Rightarrow>
                    (case ex h3 token of
                       (resp', Some err) \<Rightarrow> (Returns (resp', Some err), h3 @ [Exec token])
                     | (resp', None) \<Rightarrow>
                         RequestWithCustomRetry_loop c e key scopes numRetry ex (retry + 1)
                           resp' (h3 @ [Exec token])))
          else (Returns (resp, None), h))"
  by pat_completeness auto
termination
  by (relation "measure (\<lambda>(c, e, key, scopes, numRetry, ex, retry, resp, h).
        nat (numRetry - retry))") auto

declare RequestWithCustomRetry_loop.simps [simp del]

definition RequestWithCustomRetry ::
  "Client \<Rightarrow> env \<Rightarrow> string \<Rightarrow> string list \<Rightarrow> int \<Rightarrow> exec \<Rightarrow> trace
     \<Rightarrow> (Response option \<times> error option) outcome \<times> trace" where
  "RequestWithCustomRetry c e key scopes numRetry0 ex h =
     (let numRetry = (if numRetry0 < 0 then MaxRetry c else numRetry0)
      in case Token c e key scopes numRetry h of
           (Panics, h1) \<Rightarrow> (Panics, h1)
         | (Returns (token, Some err), h1) \<Rightarrow> (Returns (None, Some err), h1)
         | (Returns (token, None), h1) \<Rightarrow>
             (case ex h1 token of
                (resp, Some err) \<Rightarrow> (Returns (resp, Some err), h1 @ [Exec token])
              | (resp, None) \<Rightarrow>
                  if numRetry > 0 then
                    RequestWithCustomRetry_loop c e key scopes numRetry ex 0 resp
                      (h1 @ [Exec token])
                  else (Returns (resp, None), h1 @ [Exec token])))"

definition Request ::
  "Client \<Rightarrow> env \<Rightarrow> string \<Rightarrow> string list \<Rightarrow> exec \<Rightarrow> trace
     \<Rightarrow> (Response option \<times> error option) outcome \<times> trace" where
  "Request c e key scopes ex h = RequestWithCustomRetry c e key scopes (MaxRetry c) ex h"

subsection \<open>Reading a trace\<close>

text \<open>The durations slept, the keys evicted, the tokens handed to the callback, the
  scope lists exchanged and the cache writes, each in the order they happened.\<close>

fun sleeps :: "trace \<Rightarrow> Duration list" where
  "sleeps [] = []"
| "sleeps (Sleep d # h) = d # sleeps h"
| "sleeps (_ # h) = sleeps h"

fun evictions :: "trace \<Rightarrow> string list" where
  "evictions [] = []"
| "evictions (CacheDelete k # h) = k # evictions h"
| "evictions (_ # h) = evictions h"

fun execs :: "trace \<Rightarrow> string list" where
  "execs [] = []"
| "execs (Exec t # h) = t # execs h"
| "execs (_ # h) = execs h"

fun exchanges :: "trace \<Rightarrow> string list list" where
  "exchanges [] = []"
| "exchanges (Exchange s # h) = s # exchanges h"
| "exchanges (_ # h) = exchanges h"

fun cache_reads :: "trace \<Rightarrow> string list" where
  "cache_reads [] = []"
| "cache_reads (CacheRead k # h) = k # cache_reads h"
| "cache_reads (_ # h) = cache_reads h"

fun cache_writes :: "trace \<Rightarrow> (string \<times> string \<times> Duration) list" where
  "cache_writes [] = []"
| "cache_writes (CacheWrite k v ttl # h) = (k, v, ttl) # cache_writes h"
| "cache_writes (_ # h) = cache_writes h"

text \<open>What one round of the request loop does before it fetches a token: the warning,
  the sleep and, with a cache, the eviction.\<close>

definition retry_prefix :: "Client \<Rightarrow> env \<Rightarrow> string \<Rightarrow> string list \<Rightarrow> int \<Rightarrow> trace" where
  "retry_prefix c e key scopes retry =
     [WarnfRequest (pow2_sleep e retry), Sleep (pow2_sleep e retry * Second)]
     @ (if Cache c \<noteq> None then [CacheDelete (cacheKey c key scopes)] else [])"

text \<open>A stretch of trace that touches neither the cache nor the callback.\<close>

definition exchange_only :: "trace \<Rightarrow> bool" where
  "exchange_only ext \<longleftrightarrow>
     cache_reads ext = [] \<and> cache_writes ext = [] \<and> evictions ext = [] \<and> execs ext = []"

subsection \<open>Concrete collaborators\<close>

text \<open>A client as \<open>NewClient\<close> builds it, without and with a cache; the cache either
  never has the key or always answers \<open>T1\<close>.\<close>

definition example_client :: Client where
  "example_client = \<lparr>ClientID = ''id'', ClientSecret = ''secret'',
     TokenURL = ''https://oauth.example.com/oauth2/token'', SkipTLSVerify = False,
     MaxRetry = 5, Cache = None, CacheRoot = ''sand'', cacheType = ''resources''\<rparr>"

definition empty_cache :: cache where
  "empty_cache h k = None"

definition t1_cache :: cache where
  "t1_cache h k = Some (VString ''T1'')"

definition caching_client :: Client where
  "caching_client = example_client\<lparr>Cache := Some empty_cache\<rparr>"

definition t1_client :: Client where
  "t1_client = example_client\<lparr>Cache := Some t1_cache\<rparr>"

text \<open>An authority that hands out the token \<open>tok\<close> with the given expiry, one that hands
  out an empty token, and one that refuses every attempt; the clock stands at the given
  instant.\<close>

definition granting_env :: "Time \<Rightarrow> Time \<Rightarrow> env" where
  "granting_env expiry now =
     \<lparr>config_Token = (\<lambda>h scopes. (Some \<lparr>AccessToken = ''tok'', Expiry = expiry\<rparr>, None)),
      time_Now = (\<lambda>h. now), float_overflow = (\<lambda>retry. 0)\<rparr>"

definition empty_token_env :: env where
  "empty_token_env =
     \<lparr>config_Token = (\<lambda>h scopes. (Some \<lparr>AccessToken = [], Expiry = zeroTime\<rparr>, None)),
      time_Now = (\<lambda>h. zeroTime), float_overflow = (\<lambda>retry. 0)\<rparr>"

definition refusing_env :: env where
  "refusing_env =
     \<lparr>config_Token = (\<lambda>h scopes. (None, Some (ExternalError ''connection refused''))),
      time_Now = (\<lambda>h. zeroTime), float_overflow = (\<lambda>retry. 0)\<rparr>"

text \<open>An authority whose first answer is the token \<open>tok\<close> and whose later answers carry
  an empty access token, and one whose first attempt times out and whose later attempts
  hand out \<open>tok\<close>.\<close>

definition one_good_token_env :: env where
  "one_good_token_env =
     \<lparr>config_Token = (\<lambda>h scopes.
        if exchanges h = [] then (Some \<lparr>AccessToken = ''tok'', Expiry = zeroTime\<rparr>, None)
        else (Some \<lparr>AccessToken = [], Expiry = zeroTime\<rparr>, None)),
      time_Now = (\<lambda>h. zeroTime), float_overflow = (\<lambda>retry. 0)\<rparr>"

definition slow_start_env :: env where
  "slow_start_env =
     \<lparr>config_Token = (\<lambda>h scopes.
        if exchanges h = [] then (None, Some (ExternalError ''timeout''))
        else (Some \<lparr>AccessToken = ''tok'', Expiry = zeroTime\<rparr>, None)),
      time_Now = (\<lambda>h. zeroTime), float_overflow = (\<lambda>retry. 0)\<rparr>"

definition at_second :: "64 word \<Rightarrow> Time" where
  "at_second s = \<lparr>unixSec = s, nsec = 0\<rparr>"

text \<open>Callbacks: unauthorized on the first two invocations and 200 afterwards; always
  unauthorized; a transport error on the second invocation.\<close>

definition unauthorized :: Response where
  "unauthorized = \<lparr>StatusCode = 401, Body = ''denied''\<rparr>"

definition success :: Response where
  "success = \<lparr>StatusCode = 200, Body = ''ok''\<rparr>"

definition third_time_lucky :: exec where
  "third_time_lucky h token =
     (if length (execs h) < 2 then (Some unauthorized, None) else (Some success, None))"

definition always_unauthorized :: exec where
  "always_unauthorized h token = (Some unauthorized, None)"

definition second_call_breaks :: exec where
  "second_call_breaks h token =
     (if length (execs h) = 1 then (None, Some (ExternalError ''broken pipe''))
      else (Some unauthorized, None))"

section \<open>Properties\<close>

lemmas example_defs =
  example_client_def caching_client_def t1_client_def empty_cache_def t1_cache_def
  granting_env_def empty_token_env_def refusing_env_def at_second_def zeroTime_def
  cacheKey_def IsZero_def Unix_def Second_def

subsection \<open>Traces and the exchange\<close>

lemma sleeps_append: "sleeps (a @ b) = sleeps a @ sleeps b"
  by (induction a rule: sleeps.induct) simp_all

lemma evictions_append: "evictions (a @ b) = evictions a @ evictions b"
  by (induction a rule: evictions.induct) simp_all

lemma execs_append: "execs (a @ b) = execs a @ execs b"
  by (induction a rule: execs.induct) simp_all

lemma exchanges_append: "exchanges (a @ b) = exchanges a @ exchanges b"
  by (induction a rule: exchanges.induct) simp_all

lemma cache_reads_append: "cache_reads (a @ b) = cache_reads a @ cache_reads b"
  by (induction a rule: cache_reads.induct) simp_all

lemma cache_writes_append: "cache_writes (a @ b) = cache_writes a @ cache_writes b"
  by (induction a rule: cache_writes.induct) simp_all

lemmas trace_append =
  sleeps_append evictions_append execs_append exchanges_append cache_reads_append
  cache_writes_append

lemma oauthToken_loop_stop:
  "\<not> (snd r \<noteq> None \<and> retry < numRetry) \<Longrightarrow>
   oauthToken_loop e scopes numRetry retry r h = (r, h)"
  by (subst oauthToken_loop.simps) auto

lemma oauthToken_loop_step:
  "snd r \<noteq> None \<Longrightarrow> retry < numRetry \<Longrightarrow>
   oauthToken_loop e scopes numRetry retry r h =
     oauthToken_loop e scopes numRetry (retry + 1)
       (config_Token e (h @ [WarnfToken (pow2_sleep e retry) (Error (the (snd r))),
                             Sleep (pow2_sleep e retry * Second)]) scopes)
       (h @ [WarnfToken (pow2_sleep e retry) (Error (the (snd r))),
             Sleep (pow2_sleep e retry * Second), Exchange scopes])"
  by (subst oauthToken_loop.simps) (simp add: Let_def)

lemma oauthToken_loop_frame:
  "\<exists>ext. snd (oauthToken_loop e scopes numRetry retry r h) = h @ ext \<and> exchange_only ext"
proof (induction e scopes numRetry retry r h rule: oauthToken_loop.induct)
  case (1 e scopes numRetry retry r h)
  show ?case
  proof (cases "snd r \<noteq> None \<and> retry < numRetry")
    case True
    define h1 where "h1 = h @ [WarnfToken (pow2_sleep e retry) (Error (the (snd r))),
                               Sleep (pow2_sleep e retry * Second)]"
    from "1.IH"[OF True refl h1_def[unfolded Let_def]]
    obtain ext where
      ext: "snd (oauthToken_loop e scopes numRetry (retry + 1) (config_Token e h1 scopes)
                  (h1 @ [Exchange scopes])) = (h1 @ [Exchange scopes]) @ ext"
           "exchange_only ext"
      by (auto simp: h1_def)
    have "snd (oauthToken_loop e scopes numRetry retry r h) =
            h @ ([WarnfToken (pow2_sleep e retry) (Error (the (snd r))),
                  Sleep (pow2_sleep e retry * Second), Exchange scopes] @ ext)"
      using True ext(1) by (simp add: oauthToken_loop_step h1_def)
    moreover have "exchange_only ([WarnfToken (pow2_sleep e retry) (Error (the (snd r))),
                  Sleep (pow2_sleep e retry * Second), Exchange scopes] @ ext)"
      using ext(2) by (simp add: exchange_only_def trace_append)
    ultimately show ?thesis by blast
  next
    case False
    then have "oauthToken_loop e scopes numRetry retry r h = (r, h)"
      by (rule oauthToken_loop_stop)
    then show ?thesis by (simp add: exchange_only_def)
  qed
qed

lemma oauthToken_frame:
  "\<exists>ext. snd (oauthToken c e scopes numRetry h) = h @ Exchange scopes # ext \<and> exchange_only ext"
proof -
  define n where "n = (if numRetry < 0 then MaxRetry c else numRetry)"
  define r where "r = config_Token e h scopes"
  show ?thesis
  proof (cases "snd r \<noteq> None \<and> n > 0")
    case True
    obtain ext where ext:
      "snd (oauthToken_loop e scopes n 0 r (h @ [Exchange scopes])) = (h @ [Exchange scopes]) @ ext"
      "exchange_only ext"
      using oauthToken_loop_frame by blast
    have "snd (oauthToken c e scopes numRetry h) =
            snd (oauthToken_loop e scopes n 0 r (h @ [Exchange scopes]))"
      using True
      by (simp add: oauthToken_def Let_def n_def r_def split: prod.splits option.splits)
    with ext show ?thesis by simp
  next
    case False
    then have "snd (oauthToken c e scopes numRetry h) = h @ [Exchange scopes]"
      by (auto simp add: oauthToken_def Let_def n_def r_def split: prod.splits option.splits)
    then show ?thesis by (simp add: exchange_only_def)
  qed
qed

subsection \<open>Durations\<close>





subsection \<open>Cache key\<close>

lemma Join_Cons: "Join (x # xs) sep = (if xs = [] then x else x @ sep @ Join xs sep)"
  by (cases xs) simp_all

text \<open>A string free of underscores, followed by nothing or by an underscore, is
  determined by the whole.\<close>

lemma underscore_split:
  assumes "CHR ''_'' \<notin> set x" and "CHR ''_'' \<notin> set y"
    and "x @ r = y @ s"
    and "r = [] \<or> hd r = CHR ''_''" and "s = [] \<or> hd s = CHR ''_''"
  shows "x = y \<and> r = s"
proof -
  have tw: "takeWhile (\<lambda>ch. ch \<noteq> CHR ''_'') (u @ v) = u"
    if "CHR ''_'' \<notin> set u" and "v = [] \<or> hd v = CHR ''_''" for u v
  proof -
    have "takeWhile (\<lambda>ch. ch \<noteq> CHR ''_'') v = []"
      using that(2) by (cases v) auto
    moreover have "\<forall>ch\<in>set u. ch \<noteq> CHR ''_''"
      using that(1) by auto
    ultimately show ?thesis
      by simp
  qed
  have "x = takeWhile (\<lambda>ch. ch \<noteq> CHR ''_'') (x @ r)"
    using tw[OF assms(1) assms(4)] by simp
  also have "\<dots> = y"
    using tw[OF assms(2) assms(5)] assms(3) by simp
  finally have "x = y" .
  with assms(3) show ?thesis by simp
qed

lemma Join_inject:
  assumes "\<forall>x\<in>set xs. CHR ''_'' \<notin> set x" and "\<forall>y\<in>set ys. CHR ''_'' \<notin> set y"
    and "xs \<noteq> []" and "ys \<noteq> []" and "Join xs ''_'' = Join ys ''_''"
  shows "xs = ys"
  using assms
proof (induction xs arbitrary: ys)
  case Nil
  then show ?case by simp
next
  case (Cons x xs)
  from Cons.prems(4) obtain y ys' where ys: "ys = y # ys'"
    by (cases ys) auto
  let ?r = "if xs = [] then [] else ''_'' @ Join xs ''_''"
  let ?s = "if ys' = [] then [] else ''_'' @ Join ys' ''_''"
  have eq: "x @ ?r = y @ ?s"
    using Cons.prems(5) unfolding ys Join_Cons by (simp split: if_splits)
  have "x = y \<and> ?r = ?s"
    by (rule underscore_split[OF _ _ eq]) (use Cons.prems(1,2) ys in auto)
  then have xy: "x = y" and rs: "?r = ?s" by simp_all
  show ?case
  proof (cases "xs = []")
    case True
    with rs have "ys' = []" by (simp split: if_splits)
    with True xy ys show ?thesis by simp
  next
    case False
    with rs have ne: "ys' \<noteq> []" and j: "Join xs ''_'' = Join ys' ''_''"
      by (simp_all split: if_splits)
    have "xs = ys'"
      by (rule Cons.IH[OF _ _ False ne j]) (use Cons.prems(1,2) ys in auto)
    with xy ys show ?thesis by simp
  qed
qed

text \<open>
  C9, as the code has it. The key is \<open>root/class/key\<close> for no scopes and
  \<open>root/class/key/\<close> followed by the scopes joined with \<open>_\<close> in the order given
  otherwise; being a function of its four inputs, equal inputs give equal keys. When
  no scope contains the separator \<open>_\<close>, every reordering of the scopes into a different
  list gives a different key.
\<close>

theorem cacheKey_format_and_order:
  "cacheKey c key [] = CacheRoot c @ ''/'' @ cacheType c @ ''/'' @ key
   \<and> (scopes \<noteq> [] \<longrightarrow>
        cacheKey c key scopes =
          CacheRoot c @ ''/'' @ cacheType c @ ''/'' @ key @ ''/'' @ Join scopes ''_'')
   \<and> ((\<forall>s\<in>set scopes. CHR ''_'' \<notin> set s) \<and> mset scopes' = mset scopes \<and> scopes' \<noteq> scopes
        \<longrightarrow> cacheKey c key scopes' \<noteq> cacheKey c key scopes)"
proof (intro conjI impI)
  show "cacheKey c key [] = CacheRoot c @ ''/'' @ cacheType c @ ''/'' @ key"
    by (simp add: cacheKey_def)
  show "cacheKey c key scopes =
          CacheRoot c @ ''/'' @ cacheType c @ ''/'' @ key @ ''/'' @ Join scopes ''_''"
    if "scopes \<noteq> []"
    using that by (simp add: cacheKey_def)
  show "cacheKey c key scopes' \<noteq> cacheKey c key scopes"
    if h: "(\<forall>s\<in>set scopes. CHR ''_'' \<notin> set s) \<and> mset scopes' = mset scopes \<and> scopes' \<noteq> scopes"
  proof
    assume eq: "cacheKey c key scopes' = cacheKey c key scopes"
    from h have m: "mset scopes' = mset scopes" and ne: "scopes' \<noteq> scopes" by simp_all
    from m have s: "set scopes' = set scopes" by (rule mset_eq_setD)
    from m ne have n1: "scopes \<noteq> []" and n2: "scopes' \<noteq> []" by auto
    have j: "Join scopes' ''_'' = Join scopes ''_''"
      using eq n1 n2 by (simp add: cacheKey_def)
    have "scopes' = scopes"
      by (rule Join_inject[OF _ _ n2 n1 j]) (use h s in auto)
    with ne show False by simp
  qed
qed

theorem cacheKey_format_and_order_witness:
  "cacheKey example_client ''k'' [] = ''sand/resources/k''
   \<and> cacheKey example_client ''k'' [''s1'', ''s2''] = ''sand/resources/k/s1_s2''
   \<and> cacheKey example_client ''k'' [''s2'', ''s1'']
       \<noteq> cacheKey example_client ''k'' [''s1'', ''s2'']"
  using cacheKey_format_and_order
          [of example_client "''k''" "[''s1'', ''s2'']" "[''s2'', ''s1'']"]
  by (simp add: example_client_def cacheKey_def)

text \<open>
  C9 as the spec words it fails: the scopes \<open>x\<close> and \<open>x_x\<close> are distinct, and in either
  order they join to \<open>x_x_x\<close>.
\<close>

theorem cacheKey_reorder_counterexample:
  "distinct [''x'', ''x_x''] \<and> mset [''x_x'', ''x''] = mset [''x'', ''x_x'']
   \<and> [''x_x'', ''x''] \<noteq> [''x'', ''x_x'']
   \<and> cacheKey example_client ''k'' [''x_x'', ''x'']
       = cacheKey example_client ''k'' [''x'', ''x_x'']"
  by (simp add: cacheKey_def example_client_def)

subsection \<open>Token\<close>

lemma oauthToken_cache_writes:
  "cache_writes (snd (oauthToken c e scopes numRetry h)) = cache_writes h"
proof -
  obtain ext where "snd (oauthToken c e scopes numRetry h) = h @ Exchange scopes # ext"
    and "exchange_only ext"
    using oauthToken_frame by blast
  then show ?thesis
    by (simp add: exchange_only_def trace_append)
qed

lemma Token_miss:
  assumes "Cache c = Some cache" and "key \<noteq> []"
    and "cache h (cacheKey c key scopes) = None"
  shows "Token c e key scopes numRetry h =
           Token_fetch c e key scopes numRetry (h @ [CacheRead (cacheKey c key scopes)])"
  using assms by (simp add: Token_def)

lemma Token_fetch_zero_expiry:
  assumes "Cache c = Some cache" and "key \<noteq> []"
    and "oauthToken c e scopes numRetry h = ((Some t, None), h1)"
    and "AccessToken t \<noteq> []" and "IsZero (Expiry t)"
  shows "Token_fetch c e key scopes numRetry h =
           (Returns (AccessToken t, None),
            h1 @ [CacheWrite (cacheKey c key scopes) (AccessToken t) 0])"
  using assms by (simp add: Token_fetch_def)

lemma Token_fetch_finite_expiry:
  assumes "Cache c = Some cache" and "key \<noteq> []"
    and "oauthToken c e scopes numRetry h = ((Some t, None), h1)"
    and "AccessToken t \<noteq> []" and "\<not> IsZero (Expiry t)"
  shows "Token_fetch c e key scopes numRetry h =
           (Returns (AccessToken t, None),
            if 0 \<le> sint (Unix (Expiry t) - Unix (time_Now e h1))
            then h1 @ [Now, CacheWrite (cacheKey c key scopes) (AccessToken t)
                              ((Unix (Expiry t) - Unix (time_Now e h1)) * Second)]
            else h1 @ [Now])"
  using assms by (simp add: Token_fetch_def Let_def)

lemma oauthToken_exchange_only:
  obtains ext where "snd (oauthToken c e scopes numRetry h) = h @ Exchange scopes # ext"
    and "exchange_only ext"
  using oauthToken_frame by blast

lemma Token_fetch_trace:
  assumes "Cache c = None \<or> key = []"
  shows "snd (Token_fetch c e key scopes numRetry h) = snd (oauthToken c e scopes numRetry h)"
  using assms
  by (auto simp add: Token_fetch_def split: prod.splits option.splits)

lemma Token_uncached:
  assumes "Cache c = None \<or> key = []"
  shows "Token c e key scopes numRetry h = Token_fetch c e key scopes numRetry h"
  using assms by (auto simp add: Token_def split: option.splits)

text \<open>
  C5. With a cache configured and a non-empty caller key, a read that yields the string
  \<open>t1\<close> makes \<open>Token\<close> return \<open>t1\<close> with a nil error, and the read is the only thing that
  happened: no exchange, no look at the clock, no cache write, no delete.
\<close>

theorem Token_cache_hit:
  assumes "Cache c = Some cache" and "key \<noteq> []"
    and "cache h (cacheKey c key scopes) = Some (VString t1)"
  shows "Token c e key scopes numRetry h =
           (Returns (t1, None), h @ [CacheRead (cacheKey c key scopes)])"
  using assms by (simp add: Token_def)

theorem Token_cache_hit_witness:
  "Token t1_client refusing_env ''svc'' [''s1''] 3 [] =
     (Returns (''T1'', None), [CacheRead ''sand/resources/svc/s1''])"
  using Token_cache_hit [of t1_client t1_cache "''svc''" "[]" "[''s1'']" "''T1''" refusing_env 3]
  by (simp add: t1_client_def t1_cache_def example_client_def cacheKey_def)




text \<open>
  C7. When the exchange comes back with a token and a nil error (after a miss, or with
  no caching for this call) and the access-token string is empty, \<open>Token\<close> returns the
  empty string with the authentication failure it builds itself, and nothing has been
  written to the cache.
\<close>

theorem Token_empty_access_token:
  assumes "\<forall>cache. Cache c = Some cache \<and> key \<noteq> [] \<longrightarrow> cache h (cacheKey c key scopes) = None"
    and "oauthToken c e scopes numRetry
           (if Cache c \<noteq> None \<and> key \<noteq> [] then h @ [CacheRead (cacheKey c key scopes)] else h)
         = ((Some t, None), h2)"
    and "AccessToken t = []"
  shows "Token c e key scopes numRetry h =
           (Returns ([], Some (AuthenticationError ''Invalid access token'')), h2)
         \<and> cache_writes h2 = cache_writes h"
proof
  show "Token c e key scopes numRetry h =
           (Returns ([], Some (AuthenticationError ''Invalid access token'')), h2)"
  proof (cases "Cache c \<noteq> None \<and> key \<noteq> []")
    case True
    then obtain cache where c: "Cache c = Some cache" and k: "key \<noteq> []" by auto
    with assms(1) have "cache h (cacheKey c key scopes) = None" by simp
    note miss = Token_miss[OF c k this]
    from True assms(2)
    have "oauthToken c e scopes numRetry (h @ [CacheRead (cacheKey c key scopes)])
            = ((Some t, None), h2)"
      by simp
    with assms(3) show ?thesis
      by (simp add: miss Token_fetch_def)
  next
    case False
    then have u: "Cache c = None \<or> key = []" by simp
    from False assms(2) have "oauthToken c e scopes numRetry h = ((Some t, None), h2)"
      by auto
    with assms(3) show ?thesis
      by (simp add: Token_uncached[OF u] Token_fetch_def)
  qed
  have "cache_writes h2 =
          cache_writes (if Cache c \<noteq> None \<and> key \<noteq> []
                        then h @ [CacheRead (cacheKey c key scopes)] else h)"
    using oauthToken_cache_writes
            [of c e scopes numRetry
                "if Cache c \<noteq> None \<and> key \<noteq> [] then h @ [CacheRead (cacheKey c key scopes)] else h"]
          assms(2)
    by simp
  then show "cache_writes h2 = cache_writes h"
    by (simp add: trace_append)
qed

theorem Token_empty_access_token_witness:
  "oauthToken caching_client empty_token_env [''s1''] 3 [CacheRead ''sand/resources/svc/s1'']
     = ((Some \<lparr>AccessToken = [], Expiry = zeroTime\<rparr>, None),
        [CacheRead ''sand/resources/svc/s1'', Exchange [''s1'']])
   \<and> Token caching_client empty_token_env ''svc'' [''s1''] 3 []
       = (Returns ([], Some (AuthenticationError ''Invalid access token'')),
          [CacheRead ''sand/resources/svc/s1'', Exchange [''s1'']])"
  using Token_empty_access_token
          [of caching_client "''svc''" "[]" "[''s1'']" empty_token_env 3
              "\<lparr>AccessToken = [], Expiry = zeroTime\<rparr>"
              "[CacheRead ''sand/resources/svc/s1'', Exchange [''s1'']]"]
  by (simp add: oauthToken_def Token_def Token_fetch_def example_defs)

text \<open>
  C8. With an empty caller key the trace of \<open>Token\<close> is the trace of the exchange: it
  starts with an exchange and contains no cache read, write or delete, whatever cache is
  configured; a non-empty token the exchange yields is returned with a nil error.
\<close>

theorem Token_empty_key:
  "snd (Token c e [] scopes numRetry h) = snd (oauthToken c e scopes numRetry h)
   \<and> (\<exists>ext. snd (Token c e [] scopes numRetry h) = h @ Exchange scopes # ext
            \<and> cache_reads ext = [] \<and> cache_writes ext = [] \<and> evictions ext = [])
   \<and> (\<forall>t. fst (oauthToken c e scopes numRetry h) = (Some t, None) \<and> AccessToken t \<noteq> []
            \<longrightarrow> fst (Token c e [] scopes numRetry h) = Returns (AccessToken t, None))"
proof (intro conjI allI impI)
  have u: "Token c e [] scopes numRetry h = Token_fetch c e [] scopes numRetry h"
    by (rule Token_uncached) simp
  show tr: "snd (Token c e [] scopes numRetry h) = snd (oauthToken c e scopes numRetry h)"
    unfolding u by (rule Token_fetch_trace) simp
  obtain ext where "snd (oauthToken c e scopes numRetry h) = h @ Exchange scopes # ext"
    and "exchange_only ext"
    by (rule oauthToken_exchange_only)
  then show "\<exists>ext. snd (Token c e [] scopes numRetry h) = h @ Exchange scopes # ext
            \<and> cache_reads ext = [] \<and> cache_writes ext = [] \<and> evictions ext = []"
    unfolding tr exchange_only_def by blast
  show "fst (Token c e [] scopes numRetry h) = Returns (AccessToken t, None)"
    if "fst (oauthToken c e scopes numRetry h) = (Some t, None) \<and> AccessToken t \<noteq> []" for t
    using that unfolding u
    by (cases "oauthToken c e scopes numRetry h") (simp add: Token_fetch_def)
qed

theorem Token_empty_key_witness:
  "fst (oauthToken caching_client (granting_env zeroTime zeroTime) [''s1''] 3 [])
     = (Some \<lparr>AccessToken = ''tok'', Expiry = zeroTime\<rparr>, None)
   \<and> Token caching_client (granting_env zeroTime zeroTime) [] [''s1''] 3 []
       = (Returns (''tok'', None), [Exchange [''s1'']])"
  using Token_empty_key [of caching_client "granting_env zeroTime zeroTime" "[''s1'']" 3 "[]"]
  by (simp add: oauthToken_def Token_def Token_fetch_def example_defs)

text \<open>
  C10. A token whose non-zero expiry is the current instant is written with duration 0,
  the very write a token with the zero expiry gets: the two runs leave the same
  sequence of cache writes.
\<close>

theorem Token_expiry_now_ttl_zero:
  assumes "Cache c = Some cache" and "key \<noteq> []"
    and "cache h (cacheKey c key scopes) = None"
    and "oauthToken c e scopes numRetry (h @ [CacheRead (cacheKey c key scopes)])
           = ((Some t, None), h1)"
    and "AccessToken t \<noteq> []"
    and "\<not> IsZero (Expiry t)" and "Expiry t = time_Now e h1"
    and "oauthToken c e' scopes numRetry (h @ [CacheRead (cacheKey c key scopes)])
           = ((Some t', None), h1')"
    and "AccessToken t' = AccessToken t" and "IsZero (Expiry t')"
  shows "Token c e key scopes numRetry h =
           (Returns (AccessToken t, None),
            h1 @ [Now, CacheWrite (cacheKey c key scopes) (AccessToken t) 0])
       \<and> Token c e' key scopes numRetry h =
           (Returns (AccessToken t, None),
            h1' @ [CacheWrite (cacheKey c key scopes) (AccessToken t) 0])
       \<and> cache_writes (snd (Token c e key scopes numRetry h))
           = cache_writes (snd (Token c e' key scopes numRetry h))"
proof -
  have a: "Token c e key scopes numRetry h =
           (Returns (AccessToken t, None),
            h1 @ [Now, CacheWrite (cacheKey c key scopes) (AccessToken t) 0])"
    using Token_fetch_finite_expiry[OF assms(1,2,4,5,6)] assms(7)
    by (simp add: Token_miss[OF assms(1,2,3)])
  have b: "Token c e' key scopes numRetry h =
           (Returns (AccessToken t, None),
            h1' @ [CacheWrite (cacheKey c key scopes) (AccessToken t) 0])"
    using Token_fetch_zero_expiry[OF assms(1,2,8) _ assms(10)] assms(5,9)
    by (simp add: Token_miss[OF assms(1,2,3)])
  have "cache_writes h1 = cache_writes (h @ [CacheRead (cacheKey c key scopes)])"
    using oauthToken_cache_writes[of c e scopes numRetry "h @ [CacheRead (cacheKey c key scopes)]"]
          assms(4) by simp
  moreover have "cache_writes h1' = cache_writes (h @ [CacheRead (cacheKey c key scopes)])"
    using oauthToken_cache_writes[of c e' scopes numRetry "h @ [CacheRead (cacheKey c key scopes)]"]
          assms(8) by simp
  ultimately have "cache_writes (snd (Token c e key scopes numRetry h))
           = cache_writes (snd (Token c e' key scopes numRetry h))"
    by (simp add: a b trace_append)
  with a b show ?thesis by simp
qed

theorem Token_expiry_now_ttl_zero_witness:
  "Token caching_client (granting_env (at_second 1000) (at_second 1000)) ''svc'' [''s1''] 0 []
     = (Returns (''tok'', None),
        [CacheRead ''sand/resources/svc/s1'', Exchange [''s1''], Now,
         CacheWrite ''sand/resources/svc/s1'' ''tok'' 0])
   \<and> Token caching_client (granting_env zeroTime (at_second 1000)) ''svc'' [''s1''] 0 []
     = (Returns (''tok'', None),
        [CacheRead ''sand/resources/svc/s1'', Exchange [''s1''],
         CacheWrite ''sand/resources/svc/s1'' ''tok'' 0])"
  using Token_expiry_now_ttl_zero
          [of caching_client empty_cache "''svc''" "[]" "[''s1'']"
              "granting_env (at_second 1000) (at_second 1000)" 0
              "\<lparr>AccessToken = ''tok'', Expiry = at_second 1000\<rparr>"
              "[CacheRead ''sand/resources/svc/s1'', Exchange [''s1'']]"
              "granting_env zeroTime (at_second 1000)"
              "\<lparr>AccessToken = ''tok'', Expiry = zeroTime\<rparr>"
              "[CacheRead ''sand/resources/svc/s1'', Exchange [''s1'']]"]
  by (simp add: oauthToken_def Token_def Token_fetch_def example_defs)

subsection \<open>Exchange with retry\<close>

text \<open>
  C2. When every attempt against the authority fails, \<open>oauthToken\<close> with \<open>numRetry = 3\<close>
  makes four attempts with a sleep of 1, 2 and 4 seconds before the second, third and
  fourth, and returns an \<open>AuthenticationError\<close> built from the message of the error of
  the fourth attempt.
\<close>

theorem oauthToken_all_attempts_fail:
  assumes "\<forall>h'. snd (config_Token e h' scopes) \<noteq> None"
  shows "(let r0 = config_Token e h scopes;
              h1 = h @ [Exchange scopes, WarnfToken 1 (Error (the (snd r0))), Sleep 1000000000];
              r1 = config_Token e h1 scopes;
              h2 = h1 @ [Exchange scopes, WarnfToken 2 (Error (the (snd r1))), Sleep 2000000000];
              r2 = config_Token e h2 scopes;
              h3 = h2 @ [Exchange scopes, WarnfToken 4 (Error (the (snd r2))), Sleep 4000000000];
              r3 = config_Token e h3 scopes
          in oauthToken c e scopes 3 h =
               ((fst r3, Some (AuthenticationError (Error (the (snd r3))))),
                h3 @ [Exchange scopes])
             \<and> sleeps (snd (oauthToken c e scopes 3 h))
                 = sleeps h @ [1000000000, 2000000000, 4000000000])"
proof -
  define r0 where "r0 = config_Token e h scopes"
  define h1 where
    "h1 = h @ [Exchange scopes, WarnfToken 1 (Error (the (snd r0))), Sleep 1000000000]"
  define r1 where "r1 = config_Token e h1 scopes"
  define h2 where
    "h2 = h1 @ [Exchange scopes, WarnfToken 2 (Error (the (snd r1))), Sleep 2000000000]"
  define r2 where "r2 = config_Token e h2 scopes"
  define h3 where
    "h3 = h2 @ [Exchange scopes, WarnfToken 4 (Error (the (snd r2))), Sleep 4000000000]"
  define r3 where "r3 = config_Token e h3 scopes"
  have f: "snd r0 \<noteq> None" "snd r1 \<noteq> None" "snd r2 \<noteq> None" "snd r3 \<noteq> None"
    using assms by (simp_all add: r0_def r1_def r2_def r3_def)
  have p: "pow2_sleep e 0 = 1" "pow2_sleep e 1 = 2" "pow2_sleep e 2 = 4"
    by (simp_all add: pow2_sleep_def)
  have "oauthToken_loop e scopes 3 0 r0 (h @ [Exchange scopes])
          = oauthToken_loop e scopes 3 1 r1 (h1 @ [Exchange scopes])"
    using f(1) by (simp add: oauthToken_loop_step p h1_def r1_def Second_def)
  also have "\<dots> = oauthToken_loop e scopes 3 2 r2 (h2 @ [Exchange scopes])"
    using f(2) by (simp add: oauthToken_loop_step p h2_def r2_def Second_def)
  also have "\<dots> = oauthToken_loop e scopes 3 3 r3 (h3 @ [Exchange scopes])"
    using f(3) by (simp add: oauthToken_loop_step p h3_def r3_def Second_def)
  also have "\<dots> = (r3, h3 @ [Exchange scopes])"
    by (simp add: oauthToken_loop_stop)
  finally have loop: "oauthToken_loop e scopes 3 0 r0 (h @ [Exchange scopes])
                        = (r3, h3 @ [Exchange scopes])" .
  obtain tk er where r3: "r3 = (tk, Some er)"
    using f(4) by (cases r3) auto
  have res: "oauthToken c e scopes 3 h =
          ((fst r3, Some (AuthenticationError (Error (the (snd r3))))), h3 @ [Exchange scopes])"
    using f(1) loop r3 by (simp add: oauthToken_def r0_def[symmetric])
  have "sleeps (h3 @ [Exchange scopes]) = sleeps h @ [1000000000, 2000000000, 4000000000]"
    by (simp add: h3_def h2_def h1_def trace_append)
  with res show ?thesis
    by (simp add: Let_def r0_def h1_def r1_def h2_def r2_def h3_def r3_def)
qed

theorem oauthToken_all_attempts_fail_witness:
  "oauthToken example_client refusing_env [''s1''] 3 [] =
     ((None, Some (AuthenticationError ''connection refused'')),
      [Exchange [''s1''], WarnfToken 1 ''connection refused'', Sleep 1000000000,
       Exchange [''s1''], WarnfToken 2 ''connection refused'', Sleep 2000000000,
       Exchange [''s1''], WarnfToken 4 ''connection refused'', Sleep 4000000000,
       Exchange [''s1'']])
   \<and> sleeps (snd (oauthToken example_client refusing_env [''s1''] 3 []))
       = [1000000000, 2000000000, 4000000000]"
  using oauthToken_all_attempts_fail [of refusing_env "[''s1'']" "[]" example_client]
  by (simp add: refusing_env_def Let_def)

subsection \<open>What a token fetch leaves in the trace\<close>

lemma Token_fetch_frame:
  "\<exists>ext. snd (Token_fetch c e key scopes numRetry h)
            = snd (oauthToken c e scopes numRetry h) @ ext
         \<and> sleeps ext = [] \<and> evictions ext = [] \<and> execs ext = [] \<and> exchanges ext = []"
proof (cases "oauthToken c e scopes numRetry h")
  case (Pair r h1)
  obtain tk er where r: "r = (tk, er)" by (cases r)
  show ?thesis
    unfolding Token_fetch_def Pair r
    by (cases tk; cases er) (simp_all add: Let_def)
qed

lemma Token_frame:
  "\<exists>ext. snd (Token c e key scopes numRetry h) = h @ ext \<and> evictions ext = [] \<and> execs ext = []"
proof -
  have fetch: "\<exists>ext. snd (Token_fetch c e key scopes numRetry h') = h' @ ext
                   \<and> evictions ext = [] \<and> execs ext = []" for h'
  proof -
    obtain x1 where x1: "snd (oauthToken c e scopes numRetry h') = h' @ Exchange scopes # x1"
      and "exchange_only x1"
      by (rule oauthToken_exchange_only)
    moreover obtain x2 where
      "snd (Token_fetch c e key scopes numRetry h') = snd (oauthToken c e scopes numRetry h') @ x2"
      and "evictions x2 = []" and "execs x2 = []"
      using Token_fetch_frame by blast
    ultimately have "snd (Token_fetch c e key scopes numRetry h') = h' @ (Exchange scopes # x1 @ x2)"
      and "evictions (Exchange scopes # x1 @ x2) = []" and "execs (Exchange scopes # x1 @ x2) = []"
      by (simp_all add: exchange_only_def trace_append)
    then show ?thesis by blast
  qed
  show ?thesis
  proof (cases "Cache c")
    case None
    with fetch[of h] show ?thesis by (simp add: Token_def)
  next
    case (Some cache)
    show ?thesis
    proof (cases "key = []")
      case True
      with Some fetch[of h] show ?thesis by (simp add: Token_def)
    next
      case False
      let ?k = "cacheKey c key scopes"
      show ?thesis
      proof (cases "cache h ?k")
        case None
        obtain ext where "snd (Token_fetch c e key scopes numRetry (h @ [CacheRead ?k]))
                            = (h @ [CacheRead ?k]) @ ext"
          and "evictions ext = []" and "execs ext = []"
          using fetch by blast
        then have "snd (Token c e key scopes numRetry h) = h @ (CacheRead ?k # ext)"
          and "evictions (CacheRead ?k # ext) = []" and "execs (CacheRead ?k # ext) = []"
          using Some False None by (simp_all add: Token_def)
        then show ?thesis by blast
      next
        case (Some v)
        have "snd (Token c e key scopes numRetry h) = h @ [CacheRead ?k]"
          using \<open>Cache c = Some cache\<close> False Some by (cases v) (simp_all add: Token_def)
        then show ?thesis by simp
      qed
    qed
  qed
qed

lemma oauthToken_zero_retry:
  "snd (oauthToken c e scopes 0 h) = h @ [Exchange scopes]"
  by (simp add: oauthToken_def Let_def split: prod.splits option.splits)

lemma Token_zero_retry_frame:
  "\<exists>ext. snd (Token c e key scopes 0 h) = h @ ext \<and> sleeps ext = [] \<and> evictions ext = []
         \<and> execs ext = [] \<and> length (exchanges ext) \<le> 1"
proof -
  have fetch: "\<exists>ext. snd (Token_fetch c e key scopes 0 h') = h' @ ext
                   \<and> sleeps ext = [] \<and> evictions ext = [] \<and> execs ext = []
                   \<and> length (exchanges ext) \<le> 1" for h'
  proof -
    obtain x2 where
      "snd (Token_fetch c e key scopes 0 h') = snd (oauthToken c e scopes 0 h') @ x2"
      and "sleeps x2 = []" and "evictions x2 = []" and "execs x2 = []" and "exchanges x2 = []"
      using Token_fetch_frame by blast
    then have "snd (Token_fetch c e key scopes 0 h') = h' @ (Exchange scopes # x2)"
      and "sleeps (Exchange scopes # x2) = []"
      and "evictions (Exchange scopes # x2) = []" and "execs (Exchange scopes # x2) = []"
      and "length (exchanges (Exchange scopes # x2)) \<le> 1"
      by (simp_all add: oauthToken_zero_retry)
    then show ?thesis by blast
  qed
  show ?thesis
  proof (cases "Cache c")
    case None
    with fetch[of h] show ?thesis by (simp add: Token_def)
  next
    case (Some cache)
    show ?thesis
    proof (cases "key = []")
      case True
      with Some fetch[of h] show ?thesis by (simp add: Token_def)
    next
      case False
      let ?k = "cacheKey c key scopes"
      show ?thesis
      proof (cases "cache h ?k")
        case None
        obtain ext where "snd (Token_fetch c e key scopes 0 (h @ [CacheRead ?k]))
                            = (h @ [CacheRead ?k]) @ ext"
          and "sleeps ext = []" and "evictions ext = []" and "execs ext = []"
          and "length (exchanges ext) \<le> 1"
          using fetch by blast
        then have "snd (Token c e key scopes 0 h) = h @ (CacheRead ?k # ext)"
          and "sleeps (CacheRead ?k # ext) = []"
          and "evictions (CacheRead ?k # ext) = []" and "execs (CacheRead ?k # ext) = []"
          and "length (exchanges (CacheRead ?k # ext)) \<le> 1"
          using Some False None by (simp_all add: Token_def)
        then show ?thesis by blast
      next
        case (Some v)
        have "snd (Token c e key scopes 0 h) = h @ [CacheRead ?k]"
          using \<open>Cache c = Some cache\<close> False Some by (cases v) (simp_all add: Token_def)
        then show ?thesis by simp
      qed
    qed
  qed
qed

subsection \<open>Request with retry\<close>

lemma loop_nil:
  "RequestWithCustomRetry_loop c e key scopes numRetry ex retry None h = (Panics, h)"
  by (subst RequestWithCustomRetry_loop.simps) simp

lemma loop_done:
  "\<not> (StatusCode r = StatusUnauthorized \<and> retry < numRetry) \<Longrightarrow>
   RequestWithCustomRetry_loop c e key scopes numRetry ex retry (Some r) h
     = (Returns (Some r, None), h)"
  by (subst RequestWithCustomRetry_loop.simps) auto

lemma loop_step:
  assumes "StatusCode r = StatusUnauthorized" and "retry < numRetry"
  shows "RequestWithCustomRetry_loop c e key scopes numRetry ex retry (Some r) h =
     (case Token c e key scopes 0 (h @ retry_prefix c e key scopes retry) of
        (Panics, h3) \<Rightarrow> (Panics, h3)
      | (Returns (token, Some err), h3) \<Rightarrow> (Returns (Some r, Some err), h3)
      | (Returns (token, None), h3) \<Rightarrow>
          (case ex h3 token of
             (resp', Some err) \<Rightarrow> (Returns (resp', Some err), h3 @ [Exec token])
           | (resp', None) \<Rightarrow>
               RequestWithCustomRetry_loop c e key scopes numRetry ex (retry + 1)
                 resp' (h3 @ [Exec token])))"
  using assms
  by (subst RequestWithCustomRetry_loop.simps) (simp add: Let_def retry_prefix_def)

lemma oauthToken_succeeds:
  assumes "config_Token e h scopes = (Some t, None)"
  shows "oauthToken c e scopes numRetry h = ((Some t, None), h @ [Exchange scopes])"
  using assms by (simp add: oauthToken_def)

lemma Token_succeeds:
  assumes ex_ok: "\<forall>h'. \<exists>t. config_Token e h' scopes = (Some t, None) \<and> AccessToken t \<noteq> []"
    and cache_ok: "\<forall>cache h' k. Cache c = Some cache \<longrightarrow> cache h' k \<noteq> Some VOther"
  shows "\<exists>tok ext. Token c e key scopes numRetry h = (Returns (tok, None), h @ ext)
           \<and> sleeps ext = [] \<and> evictions ext = [] \<and> execs ext = []"
proof -
  have fetch: "\<exists>tok ext. Token_fetch c e key scopes numRetry h' = (Returns (tok, None), h' @ ext)
           \<and> sleeps ext = [] \<and> evictions ext = [] \<and> execs ext = []" for h'
  proof -
    obtain t where t: "config_Token e h' scopes = (Some t, None)" and ne: "AccessToken t \<noteq> []"
      using ex_ok by blast
    note o = oauthToken_succeeds[OF t, of c numRetry]
    have f: "fst (Token_fetch c e key scopes numRetry h') = Returns (AccessToken t, None)"
      using ne by (simp add: Token_fetch_def o Let_def)
    obtain x2 where
      "snd (Token_fetch c e key scopes numRetry h') = snd (oauthToken c e scopes numRetry h') @ x2"
      and "sleeps x2 = []" and "evictions x2 = []" and "execs x2 = []"
      using Token_fetch_frame by blast
    then have "snd (Token_fetch c e key scopes numRetry h') = h' @ (Exchange scopes # x2)"
      and "sleeps (Exchange scopes # x2) = []"
      and "evictions (Exchange scopes # x2) = []" and "execs (Exchange scopes # x2) = []"
      by (simp_all add: o)
    with f show ?thesis
      by (metis prod.collapse)
  qed
  show ?thesis
  proof (cases "Cache c")
    case None
    with fetch[of h] show ?thesis by (simp add: Token_def)
  next
    case (Some cache)
    show ?thesis
    proof (cases "key = []")
      case True
      with Some fetch[of h] show ?thesis by (simp add: Token_def)
    next
      case False
      let ?k = "cacheKey c key scopes"
      show ?thesis
      proof (cases "cache h ?k")
        case None
        obtain tok ext where "Token_fetch c e key scopes numRetry (h @ [CacheRead ?k])
                            = (Returns (tok, None), (h @ [CacheRead ?k]) @ ext)"
          and "sleeps ext = []" and "evictions ext = []" and "execs ext = []"
          using fetch by blast
        then have "Token c e key scopes numRetry h = (Returns (tok, None), h @ (CacheRead ?k # ext))"
          and "sleeps (CacheRead ?k # ext) = []"
          and "evictions (CacheRead ?k # ext) = []" and "execs (CacheRead ?k # ext) = []"
          using Some False None by (simp_all add: Token_def)
        then show ?thesis by blast
      next
        case (Some v)
        with cache_ok \<open>Cache c = Some cache\<close> obtain s where v: "v = VString s"
          by (cases v) auto
        have "Token c e key scopes numRetry h = (Returns (s, None), h @ [CacheRead ?k])"
          using \<open>Cache c = Some cache\<close> False Some v by (simp add: Token_def)
        moreover have "sleeps [CacheRead ?k] = []" "evictions [CacheRead ?k] = []"
          "execs [CacheRead ?k] = []" by simp_all
        ultimately show ?thesis by blast
      qed
    qed
  qed
qed

lemma retry_prefix_trace:
  "sleeps (retry_prefix c e key scopes retry) = [pow2_sleep e retry * Second]"
  "evictions (retry_prefix c e key scopes retry)
     = (if Cache c = None then [] else [cacheKey c key scopes])"
  "execs (retry_prefix c e key scopes retry) = []"
  by (simp_all add: retry_prefix_def)

text \<open>
  C4. With \<open>numRetry = 0\<close>, a token fetch that succeeds and a callback that answers
  unauthorized with a nil error: that response is returned as it is with a nil error,
  after the one token fetch and one invocation of the callback; nothing was slept,
  nothing evicted, and at most one exchange was made.
\<close>

theorem RequestWithCustomRetry_zero_retry:
  assumes "Token c e key scopes 0 h = (Returns (token, None), h1)"
    and "ex h1 token = (Some r, None)"
    and "StatusCode r = StatusUnauthorized"
  shows "RequestWithCustomRetry c e key scopes 0 ex h = (Returns (Some r, None), h1 @ [Exec token])
       \<and> sleeps (h1 @ [Exec token]) = sleeps h
       \<and> evictions (h1 @ [Exec token]) = evictions h
       \<and> execs (h1 @ [Exec token]) = execs h @ [token]
       \<and> length (exchanges (h1 @ [Exec token])) \<le> length (exchanges h) + 1"
proof -
  have "RequestWithCustomRetry c e key scopes 0 ex h = (Returns (Some r, None), h1 @ [Exec token])"
    using assms(1,2) by (simp add: RequestWithCustomRetry_def)
  moreover obtain ext where "snd (Token c e key scopes 0 h) = h @ ext" and "sleeps ext = []"
    and "evictions ext = []" and "execs ext = []" and "length (exchanges ext) \<le> 1"
    using Token_zero_retry_frame by blast
  ultimately show ?thesis
    using assms(1) by (simp add: trace_append)
qed

theorem RequestWithCustomRetry_zero_retry_witness:
  "Token caching_client (granting_env zeroTime zeroTime) ''svc'' [''s1''] 0 []
     = (Returns (''tok'', None),
        [CacheRead ''sand/resources/svc/s1'', Exchange [''s1''],
         CacheWrite ''sand/resources/svc/s1'' ''tok'' 0])
   \<and> RequestWithCustomRetry caching_client (granting_env zeroTime zeroTime) ''svc'' [''s1''] 0
       always_unauthorized []
     = (Returns (Some unauthorized, None),
        [CacheRead ''sand/resources/svc/s1'', Exchange [''s1''],
         CacheWrite ''sand/resources/svc/s1'' ''tok'' 0, Exec ''tok''])"
  using RequestWithCustomRetry_zero_retry
          [of caching_client "granting_env zeroTime zeroTime" "''svc''" "[''s1'']" "[]" "''tok''"
              "[CacheRead ''sand/resources/svc/s1'', Exchange [''s1''],
                CacheWrite ''sand/resources/svc/s1'' ''tok'' 0]"
              always_unauthorized unauthorized]
  by (simp add: RequestWithCustomRetry_def oauthToken_def Token_def Token_fetch_def example_defs
        always_unauthorized_def unauthorized_def StatusUnauthorized_def)

text \<open>
  C1, as the code has it. The authority answers every exchange with a non-empty token and the cache, if any,
  holds strings only. A callback that answers unauthorized on its first and second
  invocation and something else on its third, never with an error, is run with
  \<open>numRetry = 2\<close>: the third response comes back with a nil error, the sleeps were 1 second
  and then 2 seconds, the derived key was evicted twice when a cache is configured (and
  never otherwise), and the callback ran three times.
\<close>

theorem RequestWithCustomRetry_two_unauthorized:
  assumes ex_ok: "\<forall>h'. \<exists>t. config_Token e h' scopes = (Some t, None) \<and> AccessToken t \<noteq> []"
    and cache_ok: "\<forall>cache h' k. Cache c = Some cache \<longrightarrow> cache h' k \<noteq> Some VOther"
    and first: "\<forall>h' tok. length (execs h') = length (execs h) \<longrightarrow> ex h' tok = (Some r1, None)"
    and second: "\<forall>h' tok. length (execs h') = length (execs h) + 1 \<longrightarrow> ex h' tok = (Some r2, None)"
    and third: "\<forall>h' tok. length (execs h') = length (execs h) + 2 \<longrightarrow> ex h' tok = (Some r3, None)"
    and r1: "StatusCode r1 = StatusUnauthorized"
    and r2: "StatusCode r2 = StatusUnauthorized"
    and r3: "StatusCode r3 \<noteq> StatusUnauthorized"
  shows "\<exists>ext. RequestWithCustomRetry c e key scopes 2 ex h = (Returns (Some r3, None), h @ ext)
           \<and> sleeps ext = [1000000000, 2000000000]
           \<and> evictions ext = (if Cache c = None then []
                              else [cacheKey c key scopes, cacheKey c key scopes])
           \<and> length (execs ext) = 3"
proof -
  note tok = Token_succeeds[OF ex_ok cache_ok]
  let ?p0 = "retry_prefix c e key scopes 0" and ?p1 = "retry_prefix c e key scopes 1"
  obtain tok0 x0 where t0: "Token c e key scopes 2 h = (Returns (tok0, None), h @ x0)"
    and q0: "sleeps x0 = []" "evictions x0 = []" "execs x0 = []"
    using tok by blast
  define hA where "hA = h @ x0 @ [Exec tok0]"
  obtain tok1 x1 where
    t1: "Token c e key scopes 0 (hA @ ?p0) = (Returns (tok1, None), (hA @ ?p0) @ x1)"
    and q1: "sleeps x1 = []" "evictions x1 = []" "execs x1 = []"
    using tok by blast
  define hB where "hB = hA @ ?p0 @ x1 @ [Exec tok1]"
  obtain tok2 x2 where
    t2: "Token c e key scopes 0 (hB @ ?p1) = (Returns (tok2, None), (hB @ ?p1) @ x2)"
    and q2: "sleeps x2 = []" "evictions x2 = []" "execs x2 = []"
    using tok by blast
  define hC where "hC = hB @ ?p1 @ x2 @ [Exec tok2]"
  have e0: "ex (h @ x0) tok0 = (Some r1, None)"
    using first q0 by (simp add: trace_append)
  have e1: "ex (hA @ ?p0 @ x1) tok1 = (Some r2, None)"
    using second q0 q1 by (simp add: trace_append hA_def retry_prefix_trace)
  have e2: "ex (hB @ ?p1 @ x2) tok2 = (Some r3, None)"
    using third q0 q1 q2 by (simp add: trace_append hA_def hB_def retry_prefix_trace)
  have "RequestWithCustomRetry c e key scopes 2 ex h =
          RequestWithCustomRetry_loop c e key scopes 2 ex 0 (Some r1) hA"
    by (simp add: RequestWithCustomRetry_def t0 e0 hA_def)
  also have "\<dots> = RequestWithCustomRetry_loop c e key scopes 2 ex 1 (Some r2) hB"
    using r1 by (simp add: loop_step t1 e1 hB_def)
  also have "\<dots> = RequestWithCustomRetry_loop c e key scopes 2 ex 2 (Some r3) hC"
    using r2 by (simp add: loop_step t2 e2 hC_def)
  also have "\<dots> = (Returns (Some r3, None), hC)"
    using r3 by (simp add: loop_done)
  finally have res: "RequestWithCustomRetry c e key scopes 2 ex h = (Returns (Some r3, None), hC)" .
  define ext where "ext = x0 @ [Exec tok0] @ ?p0 @ x1 @ [Exec tok1] @ ?p1 @ x2 @ [Exec tok2]"
  have hC: "hC = h @ ext"
    by (simp add: hC_def hB_def hA_def ext_def)
  have p: "pow2_sleep e 0 = 1" "pow2_sleep e 1 = 2"
    by (simp_all add: pow2_sleep_def)
  have "sleeps ext = [1000000000, 2000000000]"
    by (simp add: ext_def trace_append retry_prefix_trace q0 q1 q2 p Second_def)
  moreover have "evictions ext = (if Cache c = None then []
                              else [cacheKey c key scopes, cacheKey c key scopes])"
    by (simp add: ext_def trace_append retry_prefix_trace q0 q1 q2)
  moreover have "length (execs ext) = 3"
    by (simp add: ext_def trace_append retry_prefix_trace q0 q1 q2)
  ultimately show ?thesis
    using res hC by blast
qed

theorem RequestWithCustomRetry_two_unauthorized_witness:
  "RequestWithCustomRetry caching_client (granting_env zeroTime zeroTime) ''svc'' [''s1''] 2
       third_time_lucky []
     = (Returns (Some success, None),
        [CacheRead ''sand/resources/svc/s1'', Exchange [''s1''],
         CacheWrite ''sand/resources/svc/s1'' ''tok'' 0, Exec ''tok'',
         WarnfRequest 1, Sleep 1000000000, CacheDelete ''sand/resources/svc/s1'',
         CacheRead ''sand/resources/svc/s1'', Exchange [''s1''],
         CacheWrite ''sand/resources/svc/s1'' ''tok'' 0, Exec ''tok'',
         WarnfRequest 2, Sleep 2000000000, CacheDelete ''sand/resources/svc/s1'',
         CacheRead ''sand/resources/svc/s1'', Exchange [''s1''],
         CacheWrite ''sand/resources/svc/s1'' ''tok'' 0, Exec ''tok''])"
  using RequestWithCustomRetry_two_unauthorized
          [of "granting_env zeroTime zeroTime" "[''s1'']" caching_client "[]" third_time_lucky
              unauthorized unauthorized success "''svc''"]
  by (simp add: RequestWithCustomRetry_def RequestWithCustomRetry_loop.simps pow2_sleep_def
        oauthToken_def Token_def Token_fetch_def example_defs
        third_time_lucky_def unauthorized_def success_def StatusUnauthorized_def)

text \<open>
  C1 without the conditions on the token fetch fails. The callback is scripted to answer
  unauthorized, unauthorized, 200 and never errs. When the token fetched for the first
  retry is empty, the run ends after one sleep and one invocation, with the first
  unauthorized response and an authentication failure. When the first exchange times out
  and is retried, the callback runs three times and the third response comes back, but
  the sleeps are 1, 1 and 2 seconds.
\<close>

theorem RequestWithCustomRetry_two_unauthorized_counterexample:
  "third_time_lucky [] ''tok'' = (Some unauthorized, None)
   \<and> third_time_lucky [Exec ''tok''] ''tok'' = (Some unauthorized, None)
   \<and> third_time_lucky [Exec ''tok'', Exec ''tok''] ''tok'' = (Some success, None)
   \<and> RequestWithCustomRetry caching_client one_good_token_env ''svc'' [''s1''] 2
         third_time_lucky []
       = (Returns (Some unauthorized, Some (AuthenticationError ''Invalid access token'')),
          [CacheRead ''sand/resources/svc/s1'', Exchange [''s1''],
           CacheWrite ''sand/resources/svc/s1'' ''tok'' 0, Exec ''tok'',
           WarnfRequest 1, Sleep 1000000000, CacheDelete ''sand/resources/svc/s1'',
           CacheRead ''sand/resources/svc/s1'', Exchange [''s1'']])
   \<and> RequestWithCustomRetry caching_client slow_start_env ''svc'' [''s1''] 2
         third_time_lucky []
       = (Returns (Some success, None),
          [CacheRead ''sand/resources/svc/s1'', Exchange [''s1''],
           WarnfToken 1 ''timeout'', Sleep 1000000000, Exchange [''s1''],
           CacheWrite ''sand/resources/svc/s1'' ''tok'' 0, Exec ''tok'',
           WarnfRequest 1, Sleep 1000000000, CacheDelete ''sand/resources/svc/s1'',
           CacheRead ''sand/resources/svc/s1'', Exchange [''s1''],
           CacheWrite ''sand/resources/svc/s1'' ''tok'' 0, Exec ''tok'',
           WarnfRequest 2, Sleep 2000000000, CacheDelete ''sand/resources/svc/s1'',
           CacheRead ''sand/resources/svc/s1'', Exchange [''s1''],
           CacheWrite ''sand/resources/svc/s1'' ''tok'' 0, Exec ''tok''])
   \<and> sleeps (snd (RequestWithCustomRetry caching_client slow_start_env ''svc'' [''s1''] 2
                      third_time_lucky []))
       = [1000000000, 1000000000, 2000000000]"
  by (simp add: RequestWithCustomRetry_def RequestWithCustomRetry_loop.simps pow2_sleep_def
        oauthToken_def oauthToken_loop.simps Token_def Token_fetch_def example_defs
        one_good_token_env_def slow_start_env_def
        third_time_lucky_def unauthorized_def success_def StatusUnauthorized_def)


subsection \<open>Transport errors\<close>

lemma execs_Nil_no_Exec: "execs a = [] \<Longrightarrow> a \<noteq> p @ Exec t # rest"
  by (auto simp add: trace_append)

lemma Exec_split:
  assumes "execs a = []" and "a @ Exec t # b = p @ Exec t' # rest"
  shows "(p = a \<and> t' = t \<and> rest = b) \<or> (\<exists>q. p = a @ Exec t # q \<and> b = q @ Exec t' # rest)"
  using assms
proof (induction a arbitrary: p)
  case Nil
  then show ?case by (cases p) auto
next
  case (Cons x a)
  from Cons.prems(1) have x: "\<forall>u. x \<noteq> Exec u" and a: "execs a = []"
    by (cases x; simp)+
  show ?case
  proof (cases p)
    case Nil
    with Cons.prems(2) x show ?thesis by simp
  next
    case (Cons y p')
    with Cons.prems(2) have "y = x" and "a @ Exec t # b = p' @ Exec t' # rest" by simp_all
    with Cons.IH[OF a, of p'] Cons show ?thesis by auto
  qed
qed

lemma loop_transport_error:
  assumes "RequestWithCustomRetry_loop c e key scopes numRetry ex retry resp h = (res, h')"
  shows "\<exists>ext. h' = h @ ext \<and>
           (\<forall>p token rest err. ext = p @ Exec token # rest \<and> snd (ex (h @ p) token) = Some err
               \<longrightarrow> rest = [] \<and> res = Returns (fst (ex (h @ p) token), Some err))"
  using assms
proof (induction "nat (numRetry - retry)" arbitrary: retry resp h res h')
  case 0
  then have stop: "\<not> retry < numRetry" by simp
  show ?case
  proof (cases resp)
    case None
    with "0.prems" show ?thesis by (simp add: loop_nil)
  next
    case (Some r)
    with "0.prems" stop show ?thesis by (simp add: loop_done)
  qed
next
  case (Suc n)
  show ?case
  proof (cases resp)
    case None
    with Suc.prems show ?thesis by (simp add: loop_nil)
  next
    case (Some r)
    show ?thesis
    proof (cases "StatusCode r = StatusUnauthorized \<and> retry < numRetry")
      case False
      with Suc.prems Some show ?thesis by (simp add: loop_done)
    next
      case True
      let ?pre = "retry_prefix c e key scopes retry"
      obtain x where x: "snd (Token c e key scopes 0 (h @ ?pre)) = (h @ ?pre) @ x"
        and xe: "execs x = []"
        using Token_frame by blast
      have pe: "execs (?pre @ x) = []"
        using xe by (simp add: trace_append retry_prefix_trace)
      obtain tr where tr: "Token c e key scopes 0 (h @ ?pre) = (tr, h @ ?pre @ x)"
        using x by (cases "Token c e key scopes 0 (h @ ?pre)") simp
      note step = loop_step[of r retry numRetry c e key scopes ex h, unfolded tr]
      have quiet: ?thesis if "h' = h @ (?pre @ x)"
      proof -
        have "\<forall>p token rest. ?pre @ x \<noteq> p @ Exec token # rest"
          using execs_Nil_no_Exec[OF pe] by blast
        with that show ?thesis by blast
      qed
      show ?thesis
      proof (cases tr)
        case Panics
        with Suc.prems Some True step have "h' = h @ (?pre @ x)" by simp
        then show ?thesis by (rule quiet)
      next
        case (Returns res0)
        obtain token eo where res0: "res0 = (token, eo)" by (cases res0)
        show ?thesis
        proof (cases eo)
          case (Some terr)
          with Suc.prems \<open>resp = Some r\<close> True step Returns res0
          have "h' = h @ (?pre @ x)" by simp
          then show ?thesis by (rule quiet)
        next
          case None
          obtain resp' xo where xr: "ex (h @ ?pre @ x) token = (resp', xo)"
            by (cases "ex (h @ ?pre @ x) token")
          show ?thesis
          proof (cases xo)
            case (Some xerr)
            with Suc.prems \<open>resp = Some r\<close> True step Returns res0 None xr
            have h': "h' = h @ ((?pre @ x) @ [Exec token])"
              and res: "res = Returns (resp', Some xerr)" by simp_all
            have "rest = [] \<and> res = Returns (fst (ex (h @ p) tk), Some err)"
              if "(?pre @ x) @ [Exec token] = p @ Exec tk # rest"
                and "snd (ex (h @ p) tk) = Some err" for p tk rest err
            proof -
              from that(1) have "(?pre @ x) @ Exec token # [] = p @ Exec tk # rest" by simp
              from Exec_split[OF pe this]
              have "p = ?pre @ x \<and> tk = token \<and> rest = []" by auto
              with that(2) xr Some res show ?thesis by simp
            qed
            with h' show ?thesis by blast
          next
            case xnone: None
            let ?h2 = "h @ ?pre @ x @ [Exec token]"
            have rec: "RequestWithCustomRetry_loop c e key scopes numRetry ex (retry + 1) resp' ?h2
                        = (res, h')"
              using Suc.prems \<open>resp = Some r\<close> True step Returns res0 None xr xnone by simp
            have "n = nat (numRetry - (retry + 1))"
              using Suc.hyps(2) by simp
            from Suc.hyps(1)[OF this rec]
            obtain ext' where h': "h' = ?h2 @ ext'"
              and inv: "\<And>p token rest err. ext' = p @ Exec token # rest
                         \<Longrightarrow> snd (ex (?h2 @ p) token) = Some err
                         \<Longrightarrow> rest = [] \<and> res = Returns (fst (ex (?h2 @ p) token), Some err)"
              by blast
            have "rest = [] \<and> res = Returns (fst (ex (h @ p) tk), Some err)"
              if "(?pre @ x) @ Exec token # ext' = p @ Exec tk # rest"
                and "snd (ex (h @ p) tk) = Some err" for p tk rest err
            proof -
              from Exec_split[OF pe that(1)]
              consider "p = ?pre @ x" "tk = token"
                | q where "p = (?pre @ x) @ Exec token # q" "ext' = q @ Exec tk # rest"
                by blast
              then show ?thesis
              proof cases
                case 1
                with that(2) xr xnone show ?thesis by simp
              next
                case 2
                from inv[OF 2(2), of err] that(2) 2(1) show ?thesis by simp
              qed
            qed
            moreover have "h' = h @ ((?pre @ x) @ Exec token # ext')"
              using h' by simp
            ultimately show ?thesis by blast
          qed
        qed
      qed
    qed
  qed
qed

text \<open>
  C3. Whenever an invocation of the callback during \<open>RequestWithCustomRetry\<close> hands back
  an error, be it the first invocation or one in the retry loop, that invocation is the
  last event of the run, and the run returns the response and the error of that
  invocation.
\<close>

theorem RequestWithCustomRetry_transport_error:
  assumes "RequestWithCustomRetry c e key scopes numRetry ex h = (res, h')"
    and "h' = h @ p @ Exec token # rest"
    and "snd (ex (h @ p) token) = Some err"
  shows "rest = [] \<and> res = Returns (fst (ex (h @ p) token), Some err)"
proof -
  define n where "n = (if numRetry < 0 then MaxRetry c else numRetry)"
  obtain x where x: "snd (Token c e key scopes n h) = h @ x" and xe: "execs x = []"
    using Token_frame by blast
  obtain tr where tr: "Token c e key scopes n h = (tr, h @ x)"
    using x by (cases "Token c e key scopes n h") simp
  note run = assms(1)[unfolded RequestWithCustomRetry_def Let_def, folded n_def, unfolded tr]
  have quiet: False if "h' = h @ x"
  proof -
    from that assms(2) have "x = p @ Exec token # rest" by simp
    with execs_Nil_no_Exec[OF xe] show False by blast
  qed
  show ?thesis
  proof (cases tr)
    case Panics
    with run have "h' = h @ x" by simp
    then show ?thesis using quiet by blast
  next
    case (Returns res0)
    obtain tok eo where res0: "res0 = (tok, eo)" by (cases res0)
    show ?thesis
    proof (cases eo)
      case (Some terr)
      with run Returns res0 have "h' = h @ x" by simp
      then show ?thesis using quiet by blast
    next
      case None
      obtain resp xo where xr: "ex (h @ x) tok = (resp, xo)"
        by (cases "ex (h @ x) tok")
      show ?thesis
      proof (cases xo)
        case (Some xerr)
        with run Returns res0 None xr
        have h': "h' = h @ x @ [Exec tok]" and res: "res = Returns (resp, Some xerr)"
          by simp_all
        from h' assms(2) have "x @ Exec tok # [] = p @ Exec token # rest" by simp
        from Exec_split[OF xe this] have "p = x \<and> token = tok \<and> rest = []" by auto
        with assms(3) xr Some res show ?thesis by simp
      next
        case xnone: None
        show ?thesis
        proof (cases "n > 0")
          case False
          with run Returns res0 None xr xnone
          have h': "h' = h @ x @ [Exec tok]" by simp
          with assms(2) have "x @ Exec tok # [] = p @ Exec token # rest" by simp
          from Exec_split[OF xe this] have "p = x \<and> token = tok" by auto
          with assms(3) xr xnone show ?thesis by simp
        next
          case True
          let ?h2 = "h @ x @ [Exec tok]"
          from run Returns res0 None xr xnone True
          have "RequestWithCustomRetry_loop c e key scopes n ex 0 resp ?h2 = (res, h')"
            by simp
          from loop_transport_error[OF this]
          obtain ext' where h': "h' = ?h2 @ ext'"
            and inv: "\<And>p token rest err. ext' = p @ Exec token # rest
                       \<Longrightarrow> snd (ex (?h2 @ p) token) = Some err
                       \<Longrightarrow> rest = [] \<and> res = Returns (fst (ex (?h2 @ p) token), Some err)"
            by blast
          from h' assms(2) have "x @ Exec tok # ext' = p @ Exec token # rest" by simp
          from Exec_split[OF xe this]
          consider "p = x" "token = tok"
            | q where "p = x @ Exec tok # q" "ext' = q @ Exec token # rest"
            by blast
          then show ?thesis
          proof cases
            case 1
            with assms(3) xr xnone show ?thesis by simp
          next
            case 2
            from inv[OF 2(2), of err] assms(3) 2(1) show ?thesis by simp
          qed
        qed
      qed
    qed
  qed
qed

theorem RequestWithCustomRetry_transport_error_witness:
  "RequestWithCustomRetry caching_client (granting_env zeroTime zeroTime) ''svc'' [''s1''] 2
       second_call_breaks []
     = (Returns (None, Some (ExternalError ''broken pipe'')),
        [CacheRead ''sand/resources/svc/s1'', Exchange [''s1''],
         CacheWrite ''sand/resources/svc/s1'' ''tok'' 0, Exec ''tok'',
         WarnfRequest 1, Sleep 1000000000, CacheDelete ''sand/resources/svc/s1'',
         CacheRead ''sand/resources/svc/s1'', Exchange [''s1''],
         CacheWrite ''sand/resources/svc/s1'' ''tok'' 0, Exec ''tok''])
   \<and> second_call_breaks
         [CacheRead ''sand/resources/svc/s1'', Exchange [''s1''],
          CacheWrite ''sand/resources/svc/s1'' ''tok'' 0, Exec ''tok'',
          WarnfRequest 1, Sleep 1000000000, CacheDelete ''sand/resources/svc/s1'',
          CacheRead ''sand/resources/svc/s1'', Exchange [''s1''],
          CacheWrite ''sand/resources/svc/s1'' ''tok'' 0] ''tok''
       = (None, Some (ExternalError ''broken pipe''))"
proof -
  let ?p = "[CacheRead ''sand/resources/svc/s1'', Exchange [''s1''],
             CacheWrite ''sand/resources/svc/s1'' ''tok'' 0, Exec ''tok'',
             WarnfRequest 1, Sleep 1000000000, CacheDelete ''sand/resources/svc/s1'',
             CacheRead ''sand/resources/svc/s1'', Exchange [''s1''],
             CacheWrite ''sand/resources/svc/s1'' ''tok'' 0]"
  have run: "RequestWithCustomRetry caching_client (granting_env zeroTime zeroTime) ''svc''
               [''s1''] 2 second_call_breaks []
             = (Returns (None, Some (ExternalError ''broken pipe'')), ?p @ [Exec ''tok''])"
    by (simp add: RequestWithCustomRetry_def RequestWithCustomRetry_loop.simps pow2_sleep_def
          oauthToken_def Token_def Token_fetch_def example_defs
          second_call_breaks_def unauthorized_def StatusUnauthorized_def)
  have shape: "?p @ [Exec ''tok''] = [] @ ?p @ Exec ''tok'' # []"
    by simp
  have call: "second_call_breaks ?p ''tok'' = (None, Some (ExternalError ''broken pipe''))"
    by (simp add: second_call_breaks_def)
  then have err: "snd (second_call_breaks ([] @ ?p) ''tok'') = Some (ExternalError ''broken pipe'')"
    by simp
  from RequestWithCustomRetry_transport_error[OF run shape err] run call
  show ?thesis by simp
qed

end
